theory Spec2Isabelle
  imports Main "HOL-Library.List_Lexorder" "HOL-Library.Char_ord" "HOL-Library.Multiset"
begin

section \<open>Python values held in blocks\<close>

text \<open>
  A block is a Python \<open>Dict[str, Any]\<close>; the values are what \<open>json\<close> produces and
  consumes. A dictionary is an association list in insertion order (its keys are
  distinct in Python). A float is carried as the text \<open>float.__repr__\<close> gives for it:
  the program stores and prints floats and never computes with them. Strings are HOL
  strings, that is, Python strings over the code points below 256.
\<close>

datatype pyval =
    PyNone
  | PyBool bool
  | PyInt int
  | PyFloat string
  | PyStr string
  | PyList "pyval list"
  | PyDict "(string \<times> pyval) list"

type_synonym block = "(string \<times> pyval) list"

datatype error = IndexError | KeyError | TypeError

text \<open>
  The library functions the program calls and does not define: \<open>sha256_hexdigest s\<close>
  is \<open>hashlib.sha256(s.encode()).hexdigest()\<close>, and \<open>py_repr\<close> is the builtin
  \<open>repr\<close>, which \<open>str\<close> uses for lists and dictionaries.
\<close>

record pylib =
  sha256_hexdigest :: "string \<Rightarrow> string"
  py_repr :: "pyval \<Rightarrow> string"

definition DIFFICULTY :: nat where
  "DIFFICULTY = 4"

subsection \<open>Text of integers\<close>

definition digit_char :: "nat \<Rightarrow> char" where
  "digit_char d = char_of (48 + d)"

function digits10 :: "nat \<Rightarrow> string" where
  "digits10 n = (if n < 10 then [digit_char n] else digits10 (n div 10) @ [digit_char (n mod 10)])"
  by pat_completeness auto
termination
  by (relation "measure id") auto

declare digits10.simps [simp del]

definition int_repr :: "int \<Rightarrow> string" where
  "int_repr i = (if i < 0 then CHR ''-'' # digits10 (nat (- i)) else digits10 (nat i))"

subsection \<open>\<open>json.dumps(v, sort_keys=True)\<close>\<close>

definition hex_char :: "nat \<Rightarrow> char" where
  "hex_char d = (if d < 10 then char_of (48 + d) else char_of (87 + d))"

text \<open>The escape of one character under \<open>ensure_ascii\<close> (the default).\<close>

definition json_escape :: "char \<Rightarrow> string" where
  "json_escape c =
     (let n = (of_char c :: nat) in
      if c = CHR 0x22 then [CHR 0x5C, CHR 0x22]
      else if c = CHR 0x5C then [CHR 0x5C, CHR 0x5C]
      else if n = 8 then [CHR 0x5C, CHR ''b'']
      else if n = 12 then [CHR 0x5C, CHR ''f'']
      else if n = 10 then [CHR 0x5C, CHR ''n'']
      else if n = 13 then [CHR 0x5C, CHR ''r'']
      else if n = 9 then [CHR 0x5C, CHR ''t'']
      else if n < 32 \<or> 126 < n
        then [CHR 0x5C, CHR ''u'', CHR ''0'', CHR ''0'', hex_char (n div 16), hex_char (n mod 16)]
      else [c])"

definition json_encode_str :: "string \<Rightarrow> string" where
  "json_encode_str s = [CHR 0x22] @ concat (map json_escape s) @ [CHR 0x22]"

definition json_floatstr :: "string \<Rightarrow> string" where
  "json_floatstr r =
     (if r = ''nan'' then ''NaN''
      else if r = ''inf'' then ''Infinity''
      else if r = ''-inf'' then ''-Infinity''
      else r)"

fun join :: "string \<Rightarrow> string list \<Rightarrow> string" where
  "join sep [] = []"
| "join sep [x] = x"
| "join sep (x # y # ys) = x @ sep @ join sep (y # ys)"

text \<open>
  With \<open>sort_keys=True\<close> the encoder walks \<open>sorted(dct.items())\<close> at every dictionary,
  the separators are \<open>", "\<close> and \<open>": "\<close>.
\<close>

function json_dumps :: "pyval \<Rightarrow> string" where
  "json_dumps PyNone = ''null''"
| "json_dumps (PyBool b) = (if b then ''true'' else ''false'')"
| "json_dumps (PyInt i) = int_repr i"
| "json_dumps (PyFloat r) = json_floatstr r"
| "json_dumps (PyStr s) = json_encode_str s"
| "json_dumps (PyList xs) = ''['' @ join '', '' (map json_dumps xs) @ '']''"
| "json_dumps (PyDict kvs) =
     ''{'' @ join '', '' (map (\<lambda>kv. json_encode_str (fst kv) @ '': '' @ json_dumps (snd kv))
                            (sort_key fst kvs)) @ ''}''"
  by pat_completeness auto
termination
proof (relation "measure size")
  show "wf (measure size)" by simp
next
  fix xs :: "pyval list" and x
  assume "x \<in> set xs"
  then show "(x, PyList xs) \<in> measure size"
    by (induction xs) auto
next
  fix kvs :: "(string \<times> pyval) list" and kv
  assume "kv \<in> set (sort_key fst kvs)"
  then have "kv \<in> set kvs" by simp
  then show "(snd kv, PyDict kvs) \<in> measure size"
    by (induction kvs) (auto simp: less_Suc_eq_le)
qed

section \<open>Hashing and proof of work\<close>

text \<open>\<open>Blockchain.hash\<close>: the digest of the block's JSON text with sorted keys.\<close>

definition hash :: "pylib \<Rightarrow> block \<Rightarrow> string" where
  "hash L block = sha256_hexdigest L (json_dumps (PyDict block))"

text \<open>
  What an f-string puts for \<open>{v}\<close>, the builtin \<open>str\<close>: a string is itself, an integer
  its decimal text, a float its \<open>repr\<close>; lists and dictionaries go through \<open>repr\<close>.
\<close>

definition py_str :: "pylib \<Rightarrow> pyval \<Rightarrow> string" where
  "py_str L v =
     (case v of
        PyNone \<Rightarrow> ''None''
      | PyBool b \<Rightarrow> (if b then ''True'' else ''False'')
      | PyInt i \<Rightarrow> int_repr i
      | PyFloat r \<Rightarrow> r
      | PyStr s \<Rightarrow> s
      | PyList xs \<Rightarrow> py_repr L v
      | PyDict kvs \<Rightarrow> py_repr L v)"

text \<open>
  \<open>Blockchain.valid_proof\<close>. The values come out of blocks, so they are any Python
  value; \<open>target\<close> is \<open>None\<close> or a string.
\<close>

definition valid_proof :: "pylib \<Rightarrow> pyval \<Rightarrow> pyval \<Rightarrow> pyval \<Rightarrow> string option \<Rightarrow> bool" where
  "valid_proof L last_proof proof last_hash target =
     (let target' = (case target of None \<Rightarrow> replicate DIFFICULTY CHR ''0'' | Some t \<Rightarrow> t);
          guess = py_str L last_proof @ py_str L proof @ py_str L last_hash;
          guess_hash = sha256_hexdigest L guess
      in take (length target') guess_hash = target')"

text \<open>
  The loop of \<open>Blockchain.proof_of_work\<close>. It may run forever, so not returning is
  the value \<open>None\<close>.
\<close>

partial_function (option) pow_loop ::
  "pylib \<Rightarrow> pyval \<Rightarrow> pyval \<Rightarrow> string \<Rightarrow> int \<Rightarrow> int option" where
  "pow_loop L last_proof last_hash target proof =
     (if \<not> valid_proof L last_proof (PyInt proof) last_hash (Some target)
      then pow_loop L last_proof last_hash target (proof + 1)
      else Some proof)"

definition proof_of_work :: "pylib \<Rightarrow> pyval \<Rightarrow> string \<Rightarrow> int option" where
  "proof_of_work L last_proof last_hash =
     pow_loop L last_proof (PyStr last_hash) (replicate DIFFICULTY CHR ''0'') 0"

section \<open>Chain validation\<close>

text \<open>
  The reference hash of the proof check: \<open>last_block['previous_hash']\<close> if the key is
  in the block, otherwise the hash of the block.
\<close>

definition reference_hash :: "pylib \<Rightarrow> block \<Rightarrow> pyval" where
  "reference_hash L last_block =
     (case map_of last_block ''previous_hash'' of
        Some h \<Rightarrow> h
      | None \<Rightarrow> PyStr (hash L last_block))"

text \<open>
  The \<open>while\<close> loop of \<open>Blockchain.valid_chain\<close>, over the blocks from
  \<open>current_index\<close> on. A subscript on a missing key raises \<open>KeyError\<close>.
\<close>

fun valid_chain_loop :: "pylib \<Rightarrow> block \<Rightarrow> block list \<Rightarrow> error + bool" where
  "valid_chain_loop L last_block [] = Inr True"
| "valid_chain_loop L last_block (block # rest) =
     (case map_of block ''previous_hash'' of
        None \<Rightarrow> Inl KeyError
      | Some ph \<Rightarrow>
          if ph \<noteq> PyStr (hash L last_block) then Inr False
          else (case map_of last_block ''proof'' of
                  None \<Rightarrow> Inl KeyError
                | Some last_proof \<Rightarrow>
                    (case map_of block ''proof'' of
                       None \<Rightarrow> Inl KeyError
                     | Some proof \<Rightarrow>
                         if \<not> valid_proof L last_proof proof (reference_hash L last_block) None
                         then Inr False
                         else valid_chain_loop L block rest)))"

definition valid_chain :: "pylib \<Rightarrow> block list \<Rightarrow> error + bool" where
  "valid_chain L chain =
     (case chain of
        [] \<Rightarrow> Inl IndexError
      | last_block # rest \<Rightarrow> valid_chain_loop L last_block rest)"

section \<open>The ledger\<close>

text \<open>
  \<open>self.current_transactions\<close> is a list object: \<open>new_transaction\<close> appends to it in
  place and \<open>new_block\<close> puts the object itself, not a copy, into the block. The lists
  the ledger makes are therefore kept in a store, \<open>heap\<close>, from addresses to contents,
  and a block made by \<open>new_block\<close> holds the address of its list. A chain taken from a
  peer holds plain values only.
\<close>

datatype field = Val pyval | TxList nat

type_synonym lblock = "(string \<times> field) list"

record ledger =
  chain :: "lblock list"
  current_transactions :: nat
  heap :: "nat \<Rightarrow> pyval list"
  fresh :: nat

fun field_value :: "(nat \<Rightarrow> pyval list) \<Rightarrow> field \<Rightarrow> pyval" where
  "field_value h (Val v) = v"
| "field_value h (TxList a) = PyList (h a)"

text \<open>The dictionary a block is when it is read (hashed, or sent to a peer).\<close>

definition block_of :: "(nat \<Rightarrow> pyval list) \<Rightarrow> lblock \<Rightarrow> block" where
  "block_of h b = map (\<lambda>kf. (fst kf, field_value h (snd kf))) b"

definition blocks :: "ledger \<Rightarrow> block list" where
  "blocks st = map (block_of (heap st)) (chain st)"

definition pool :: "ledger \<Rightarrow> pyval list" where
  "pool st = heap st (current_transactions st)"

text \<open>A chain parsed from a peer's answer, as the ledger holds it.\<close>

definition adopt :: "block list \<Rightarrow> lblock list" where
  "adopt c = map (map (\<lambda>kv. (fst kv, Val (snd kv)))) c"

text \<open>
  \<open>Blockchain.new_block\<close>; \<open>ts\<close> is what \<open>time.time()\<close> returns. The dictionary is
  built first, so \<open>self.chain[-1]\<close> on an empty chain raises before anything changes.
  \<open>previous_hash or self.hash(self.chain[-1])\<close> takes the argument unless it is
  \<open>None\<close> or empty.
\<close>

definition supplied_or_hash :: "pylib \<Rightarrow> string option \<Rightarrow> ledger \<Rightarrow> error + string" where
  "supplied_or_hash L previous_hash st =
     (case previous_hash of
        Some p \<Rightarrow> if p \<noteq> [] then Inr p
                  else (if chain st = [] then Inl IndexError
                        else Inr (hash L (block_of (heap st) (last (chain st)))))
      | None \<Rightarrow> (if chain st = [] then Inl IndexError
                  else Inr (hash L (block_of (heap st) (last (chain st))))))"

definition new_block ::
  "pylib \<Rightarrow> int \<Rightarrow> string option \<Rightarrow> string \<Rightarrow> ledger \<Rightarrow> error + (lblock \<times> ledger)" where
  "new_block L proof previous_hash ts st =
     (case supplied_or_hash L previous_hash st of
        Inl e \<Rightarrow> Inl e
      | Inr ph \<Rightarrow>
          (let block = [(''index'', Val (PyInt (int (length (chain st)) + 1))),
                        (''timestamp'', Val (PyFloat ts)),
                        (''transactions'', TxList (current_transactions st)),
                        (''proof'', Val (PyInt proof)),
                        (''previous_hash'', Val (PyStr ph))]
           in Inr (block,
                   st\<lparr>chain := chain st @ [block],
                      current_transactions := fresh st,
                      heap := (heap st)(fresh st := []),
                      fresh := Suc (fresh st)\<rparr>)))"

text \<open>
  \<open>Blockchain.new_transaction\<close>. The append comes first; the returned index is
  \<open>self.last_block['index'] + 1\<close>, which can raise after the pool has changed. The sum
  with a float index is a float and is left out of the model (\<open>None\<close>).
\<close>

definition next_index :: "ledger \<Rightarrow> error + pyval option" where
  "next_index st =
     (if chain st = [] then Inl IndexError
      else (case map_of (block_of (heap st) (last (chain st))) ''index'' of
              None \<Rightarrow> Inl KeyError
            | Some (PyInt i) \<Rightarrow> Inr (Some (PyInt (i + 1)))
            | Some (PyBool b) \<Rightarrow> Inr (Some (PyInt ((if b then 1 else 0) + 1)))
            | Some (PyFloat r) \<Rightarrow> Inr None
            | Some _ \<Rightarrow> Inl TypeError))"

definition transaction :: "string \<Rightarrow> string \<Rightarrow> pyval \<Rightarrow> pyval" where
  "transaction sender recipient amount =
     PyDict [(''sender'', PyStr sender), (''recipient'', PyStr recipient), (''amount'', amount)]"

definition new_transaction ::
  "string \<Rightarrow> string \<Rightarrow> pyval \<Rightarrow> ledger \<Rightarrow> (error + pyval option) \<times> ledger" where
  "new_transaction sender recipient amount st =
     (let a = current_transactions st;
          st' = st\<lparr>heap := (heap st)(a := heap st a @ [transaction sender recipient amount])\<rparr>
      in (next_index st', st'))"

text \<open>
  \<open>Blockchain.__init__\<close>: two empty lists (the pool is the list at address 0), then
  the genesis block.
\<close>

definition empty_ledger :: ledger where
  "empty_ledger = \<lparr>chain = [], current_transactions = 0, heap = (\<lambda>a. []), fresh = 1\<rparr>"

definition init :: "pylib \<Rightarrow> string \<Rightarrow> error + ledger" where
  "init L ts =
     (case new_block L 100 (Some ''1'') ts empty_ledger of
        Inl e \<Rightarrow> Inl e
      | Inr (b, st) \<Rightarrow> Inr st)"

section \<open>Consensus\<close>

text \<open>
  What \<open>requests.get\<close> gives for one neighbour: a \<open>RequestException\<close> (the node is
  skipped), or an answer with its status code and, in its JSON body, \<open>length\<close> and
  \<open>chain\<close>. The neighbours are a set; the list holds their answers in the order the
  loop meets them.
\<close>

datatype response = RequestException | Response int int "block list"

text \<open>The \<open>for\<close> loop of \<open>Blockchain.resolve_conflicts\<close>, with its two variables.\<close>

fun scan :: "pylib \<Rightarrow> int \<Rightarrow> block list option \<Rightarrow> response list
               \<Rightarrow> error + (int \<times> block list option)" where
  "scan L max_length new_chain [] = Inr (max_length, new_chain)"
| "scan L max_length new_chain (RequestException # rs) = scan L max_length new_chain rs"
| "scan L max_length new_chain (Response status_code len c # rs) =
     (if status_code = 200 then
        (if len > max_length then
           (case valid_chain L c of
              Inl e \<Rightarrow> Inl e
            | Inr ok \<Rightarrow> if ok then scan L len (Some c) rs
                        else scan L max_length new_chain rs)
         else scan L max_length new_chain rs)
      else scan L max_length new_chain rs)"

text \<open>\<open>if new_chain:\<close> is false for \<open>None\<close> and for an empty list.\<close>

definition resolve_conflicts :: "pylib \<Rightarrow> response list \<Rightarrow> ledger \<Rightarrow> error + (bool \<times> ledger)" where
  "resolve_conflicts L rs st =
     (case scan L (int (length (chain st))) None rs of
        Inl e \<Rightarrow> Inl e
      | Inr (max_length, new_chain) \<Rightarrow>
          (case new_chain of
             None \<Rightarrow> Inr (False, st)
           | Some c \<Rightarrow> if c \<noteq> [] then Inr (True, st\<lparr>chain := adopt c\<rparr>)
                       else Inr (False, st)))"

section \<open>Runs of the ledger\<close>

text \<open>
  The calls that change a ledger. A call that raises leaves the ledger as the code
  has it at the raise: \<open>new_block\<close> and \<open>resolve_conflicts\<close> have changed nothing by
  then, \<open>new_transaction\<close> has appended.
\<close>

datatype op =
    Record string string pyval
  | Mine int "string option" string
  | Resolve "response list"

fun apply_op :: "pylib \<Rightarrow> ledger \<Rightarrow> op \<Rightarrow> ledger" where
  "apply_op L st (Record sender recipient amount) = snd (new_transaction sender recipient amount st)"
| "apply_op L st (Mine proof previous_hash ts) =
     (case new_block L proof previous_hash ts st of Inl e \<Rightarrow> st | Inr (b, st') \<Rightarrow> st')"
| "apply_op L st (Resolve rs) =
     (case resolve_conflicts L rs st of Inl e \<Rightarrow> st | Inr (replaced, st') \<Rightarrow> st')"

definition run :: "pylib \<Rightarrow> ledger \<Rightarrow> op list \<Rightarrow> ledger" where
  "run L st ops = foldl (apply_op L) st ops"



fun is_mine :: "op \<Rightarrow> bool" where
  "is_mine (Mine proof previous_hash ts) = True"
| "is_mine other = False"



text \<open>Every block after the first carries the hash of the block before it.\<close>

fun linked :: "pylib \<Rightarrow> block list \<Rightarrow> bool" where
  "linked L [] = True"
| "linked L [b] = True"
| "linked L (a # b # bs) =
     (map_of b ''previous_hash'' = Some (PyStr (hash L a)) \<and> linked L (b # bs))"

text \<open>
  The list objects a block points to, and the state of the store the ledger keeps:
  the pool is an allocated list that no block of the chain points to.
\<close>

definition refs :: "lblock \<Rightarrow> nat list" where
  "refs b = concat (map (\<lambda>kf. case snd kf of TxList a \<Rightarrow> [a] | Val v \<Rightarrow> []) b)"

definition store_ok :: "ledger \<Rightarrow> bool" where
  "store_ok st =
     (current_transactions st < fresh st \<and>
      list_all (\<lambda>b. list_all (\<lambda>a. a < fresh st \<and> a \<noteq> current_transactions st) (refs b))
        (chain st))"

section \<open>Properties to be shown\<close>





text \<open>
  A run of \<open>new_block\<close> calls in which every \<open>previous_hash\<close> argument is left out, is
  empty, or is the hash of the block that is last at the call.
\<close>

fun honest_mines :: "pylib \<Rightarrow> ledger \<Rightarrow> op list \<Rightarrow> bool" where
  "honest_mines L st [] = True"
| "honest_mines L st (Mine proof previous_hash ts # ops) =
     ((previous_hash = None \<or> previous_hash = Some []
        \<or> previous_hash = Some (hash L (last (blocks st))))
      \<and> honest_mines L (apply_op L st (Mine proof previous_hash ts)) ops)"
| "honest_mines L st (other # ops) = False"

section \<open>Example data\<close>

text \<open>
  A small stand-in for the library, to run the definitions on concrete inputs: its
  digest has 64 hexadecimal characters and begins with zeros for one text in seven.
\<close>

definition demo_sha256 :: "string \<Rightarrow> string" where
  "demo_sha256 s =
     (if sum_list (map of_char s) mod (7::nat) = 0 then replicate 64 CHR ''0''
      else replicate 64 CHR ''a'')"

definition demo_lib :: pylib where
  "demo_lib = \<lparr>sha256_hexdigest = demo_sha256, py_repr = (\<lambda>v. ''?'')\<rparr>"

definition example_genesis :: ledger where
  "example_genesis =
     \<lparr>chain = [[(''index'', Val (PyInt 1)), (''timestamp'', Val (PyFloat ''1.5'')),
                (''transactions'', TxList 0), (''proof'', Val (PyInt 100)),
                (''previous_hash'', Val (PyStr ''1''))]],
      current_transactions = 1, heap = (\<lambda>a. []), fresh = 2\<rparr>"

definition example_block :: block where
  "example_block = [(''index'', PyInt 1), (''timestamp'', PyFloat ''0.5''),
                    (''transactions'', PyList []), (''proof'', PyInt 100),
                    (''previous_hash'', PyStr ''1'')]"

definition example_block_reordered :: block where
  "example_block_reordered = [(''previous_hash'', PyStr ''1''), (''proof'', PyInt 100),
                    (''transactions'', PyList []), (''timestamp'', PyFloat ''0.5''),
                    (''index'', PyInt 1)]"

definition example_genesis_block :: block where
  "example_genesis_block = [(''index'', PyInt 1), (''timestamp'', PyFloat ''1.5''),
                            (''transactions'', PyList []), (''proof'', PyInt 100),
                            (''previous_hash'', PyStr ''1'')]"

definition example_chain_A :: "block list" where
  "example_chain_A =
     [example_genesis_block,
      [(''index'', PyInt 2), (''timestamp'', PyFloat ''2.5''),
       (''transactions'', PyList []), (''proof'', PyInt 3),
       (''previous_hash'', PyStr (replicate 64 CHR ''a''))]]"


definition example_bad_chain :: "block list" where
  "example_bad_chain =
     [example_genesis_block,
      [(''index'', PyInt 2), (''timestamp'', PyFloat ''2.5''),
       (''transactions'', PyList []), (''proof'', PyInt 3),
       (''previous_hash'', PyStr ''1'')]]"


section \<open>Basic facts\<close>

lemma block_of_adopt: "map (block_of h) (adopt c) = c"
  by (simp add: adopt_def block_of_def comp_def map_idI)

lemma blocks_adopt: "blocks (st\<lparr>chain := adopt c\<rparr>) = c"
  by (simp add: blocks_def block_of_adopt)

lemma block_of_cong:
  "list_all (\<lambda>a. h a = h' a) (refs b) \<Longrightarrow> block_of h b = block_of h' b"
proof (induction b)
  case Nil
  then show ?case by (simp add: block_of_def)
next
  case (Cons kf b)
  then show ?case
    by (cases "snd kf") (auto simp: block_of_def refs_def)
qed

lemma new_block_Inr:
  "supplied_or_hash L previous_hash st = Inr ph \<Longrightarrow>
   new_block L proof previous_hash ts st =
     Inr ([(''index'', Val (PyInt (int (length (chain st)) + 1))),
           (''timestamp'', Val (PyFloat ts)),
           (''transactions'', TxList (current_transactions st)),
           (''proof'', Val (PyInt proof)),
           (''previous_hash'', Val (PyStr ph))],
          st\<lparr>chain := chain st @ [[(''index'', Val (PyInt (int (length (chain st)) + 1))),
           (''timestamp'', Val (PyFloat ts)),
           (''transactions'', TxList (current_transactions st)),
           (''proof'', Val (PyInt proof)),
           (''previous_hash'', Val (PyStr ph))]],
             current_transactions := fresh st,
             heap := (heap st)(fresh st := []),
             fresh := Suc (fresh st)\<rparr>)"
  by (simp add: new_block_def Let_def)

lemma new_block_Inl:
  "supplied_or_hash L previous_hash st = Inl e \<Longrightarrow> new_block L proof previous_hash ts st = Inl e"
  by (simp add: new_block_def)

lemma init_eq:
  "init L ts =
     Inr \<lparr>chain = [[(''index'', Val (PyInt 1)), (''timestamp'', Val (PyFloat ts)),
                    (''transactions'', TxList 0), (''proof'', Val (PyInt 100)),
                    (''previous_hash'', Val (PyStr ''1''))]],
          current_transactions = 1, heap = (\<lambda>a. []), fresh = 2\<rparr>"
  by (simp add: init_def new_block_def supplied_or_hash_def empty_ledger_def Let_def fun_eq_iff)

lemma init_example: "init L ''1.5'' = Inr example_genesis"
  by (simp add: init_eq example_genesis_def)

lemma valid_chain_nonempty: "valid_chain L c = Inr ok \<Longrightarrow> c \<noteq> []"
  by (auto simp: valid_chain_def)

section \<open>Facts about the example data\<close>

lemma genesis_text:
  "json_dumps (PyDict example_genesis_block) =
     ''{\"index\": 1, \"previous_hash\": \"1\", \"proof\": 100, \"timestamp\": 1.5, \"transactions\": []}''"
  by code_simp

lemma genesis_hash: "hash demo_lib example_genesis_block = replicate 64 CHR ''a''"
  by (simp only: hash_def genesis_text) (simp add: demo_lib_def demo_sha256_def)

lemmas genesis_hash_unfolded = genesis_hash [unfolded example_genesis_block_def]

lemma demo_digest_not_one: "replicate 64 CHR ''a'' \<noteq> ''1''"
  by code_simp

lemma demo_valid_3: "valid_proof demo_lib (PyInt 100) (PyInt 3) (PyStr ''1'') None"
  by code_simp


lemma example_chain_A_valid: "valid_chain demo_lib example_chain_A = Inr True"
  by (simp add: valid_chain_def example_chain_A_def genesis_hash_unfolded reference_hash_def
      demo_valid_3 example_genesis_block_def)
lemma example_bad_chain_extended: "valid_chain demo_lib (example_bad_chain @ [[]]) = Inr False"
  using demo_digest_not_one by (simp add: valid_chain_def example_bad_chain_def example_genesis_block_def genesis_hash_unfolded)
lemma example_genesis_blocks: "blocks example_genesis = [example_genesis_block]"
  by (simp add: blocks_def example_genesis_def block_of_def example_genesis_block_def)

section \<open>The genesis block\<close>

text \<open>
  C8. A freshly constructed ledger has exactly one block; its index is 1, its proof is
  the sentinel 100, its previous hash is the sentinel "1"; the pending pool is empty.
  The constructor does not raise.
\<close>

theorem genesis_ledger:
  "\<exists>st. init L ts = Inr st \<and> length (blocks st) = 1
      \<and> map_of (hd (blocks st)) ''index'' = Some (PyInt 1)
      \<and> map_of (hd (blocks st)) ''proof'' = Some (PyInt 100)
      \<and> map_of (hd (blocks st)) ''previous_hash'' = Some (PyStr ''1'')
      \<and> pool st = []"
  by (simp add: init_eq blocks_def block_of_def pool_def)

section \<open>The reported length\<close>

text \<open>
  C10. \<open>resolve_conflicts\<close> compares the \<open>length\<close> field of the answer, not the number of
  blocks of the chain that came with it. An answer whose reported length exceeds the
  length of the local chain, with a chain that passes \<open>valid_chain\<close> and has fewer
  blocks than the local one, replaces the local chain, and the call returns true. An
  answer whose reported length does not exceed the length of the local chain changes
  nothing and the call returns false, whatever its status and however many blocks its
  chain has.
\<close>

theorem reported_length_decides:
  "(valid_chain L c = Inr True \<and> int (length (chain st)) < n \<and> length c < length (chain st)
      \<longrightarrow> (\<exists>st'. resolve_conflicts L [Response 200 n c] st = Inr (True, st')
              \<and> blocks st' = c \<and> length (chain st') < length (chain st)))
   \<and> (m \<le> int (length (chain st))
      \<longrightarrow> resolve_conflicts L [Response status_code m c'] st = Inr (False, st))"
proof (intro conjI impI)
  assume h: "valid_chain L c = Inr True \<and> int (length (chain st)) < n
             \<and> length c < length (chain st)"
  then have ne: "c \<noteq> []" by (auto dest: valid_chain_nonempty)
  have "resolve_conflicts L [Response 200 n c] st = Inr (True, st\<lparr>chain := adopt c\<rparr>)"
    using h ne by (simp add: resolve_conflicts_def)
  moreover have "length (chain (st\<lparr>chain := adopt c\<rparr>)) < length (chain st)"
    using h by (simp add: adopt_def)
  ultimately show "\<exists>st'. resolve_conflicts L [Response 200 n c] st = Inr (True, st')
              \<and> blocks st' = c \<and> length (chain st') < length (chain st)"
    by (simp add: blocks_adopt)
next
  assume "m \<le> int (length (chain st))"
  then show "resolve_conflicts L [Response status_code m c'] st = Inr (False, st)"
    by (simp add: resolve_conflicts_def)
qed

theorem reported_length_decides_witness:
  "valid_chain demo_lib [example_block] = Inr True
   \<and> int (length (chain (run demo_lib example_genesis [Mine 7 None ''2.5'']))) < 5
   \<and> length [example_block] < length (chain (run demo_lib example_genesis [Mine 7 None ''2.5'']))
   \<and> (\<exists>st'. resolve_conflicts demo_lib [Response 200 5 [example_block]]
               (run demo_lib example_genesis [Mine 7 None ''2.5'']) = Inr (True, st')
         \<and> blocks st' = [example_block]
         \<and> length (chain st') < length (chain (run demo_lib example_genesis [Mine 7 None ''2.5''])))
   \<and> (1::int) \<le> int (length (chain example_genesis))
   \<and> valid_chain demo_lib example_chain_A = Inr True
   \<and> length (chain example_genesis) < length example_chain_A
   \<and> resolve_conflicts demo_lib [Response 200 1 example_chain_A] example_genesis
       = Inr (False, example_genesis)"
proof -
  have v: "valid_chain demo_lib [example_block] = Inr True"
    by (simp add: valid_chain_def)
  have n: "length (chain (run demo_lib example_genesis [Mine 7 None ''2.5''])) = 2"
    by (simp add: run_def new_block_def supplied_or_hash_def example_genesis_def Let_def)
  have a: "int (length (chain (run demo_lib example_genesis [Mine 7 None ''2.5'']))) < 5"
    by (simp add: n)
  have b: "length [example_block] < length (chain (run demo_lib example_genesis [Mine 7 None ''2.5'']))"
    by (simp add: n)
  have g: "(1::int) \<le> int (length (chain example_genesis))"
    by (simp add: example_genesis_def)
  have l: "length (chain example_genesis) < length example_chain_A"
    by (simp add: example_genesis_def example_chain_A_def)
  note t1 = reported_length_decides
    [of demo_lib "[example_block]" "run demo_lib example_genesis [Mine 7 None ''2.5'']" 5]
  note t2 = reported_length_decides
    [of demo_lib _ example_genesis _ 1 200 example_chain_A]
  from t1 v a b have p1: "\<exists>st'. resolve_conflicts demo_lib [Response 200 5 [example_block]]
               (run demo_lib example_genesis [Mine 7 None ''2.5'']) = Inr (True, st')
         \<and> blocks st' = [example_block]
         \<and> length (chain st') < length (chain (run demo_lib example_genesis [Mine 7 None ''2.5'']))"
    by blast
  from t2 g have p2: "resolve_conflicts demo_lib [Response 200 1 example_chain_A] example_genesis
       = Inr (False, example_genesis)"
    by blast
  show ?thesis
    using v a b p1 g example_chain_A_valid l p2 by blast
qed

section \<open>The hash of a block\<close>

lemma filter_key_single:
  "distinct (map fst zs) \<Longrightarrow> k \<in> set zs \<Longrightarrow> filter (\<lambda>x. fst k = fst x) zs = [k]"
proof (induction zs)
  case Nil
  then show ?case by simp
next
  case (Cons z zs)
  show ?case
  proof (cases "k = z")
    case True
    have "filter (\<lambda>x. fst k = fst x) zs = []"
      using Cons.prems(1) True by (auto simp: filter_empty_conv image_iff)
    with True show ?thesis by simp
  next
    case False
    with Cons.prems have "k \<in> set zs" by simp
    moreover from Cons.prems(1) have "distinct (map fst zs)" by simp
    moreover have "fst k \<noteq> fst z"
      using Cons.prems(1) \<open>k \<in> set zs\<close> by (auto simp: image_iff)
    ultimately show ?thesis using Cons.IH by simp
  qed
qed

lemma sort_key_fst_unique:
  assumes "distinct (map fst xs)" and "distinct (map fst ys)" and "map_of xs = map_of ys"
  shows "sort_key fst xs = sort_key fst ys"
proof (rule properties_for_sort_key)
  have s: "set xs = set ys"
    using assms by (simp add: map_of_inject_set)
  have dx: "distinct xs" and dy: "distinct ys"
    using assms(1,2) by (auto simp: distinct_map)
  show "mset (sort_key fst ys) = mset xs"
    using s dx dy by (simp add: set_eq_iff_mset_eq_distinct)
  show "sorted (map fst (sort_key fst ys))" by simp
  fix k
  assume "k \<in> set (sort_key fst ys)"
  then have ky: "k \<in> set ys" by simp
  with s have kx: "k \<in> set xs" by simp
  have "distinct (map fst (sort_key fst ys))"
    using assms(2) by (simp add: distinct_map)
  then have "filter (\<lambda>x. fst k = fst x) (sort_key fst ys) = [k]"
    using \<open>k \<in> set (sort_key fst ys)\<close> by (rule filter_key_single)
  moreover have "filter (\<lambda>x. fst k = fst x) xs = [k]"
    using assms(1) kx by (rule filter_key_single)
  ultimately show "filter (\<lambda>x. fst k = fst x) (sort_key fst ys) = filter (\<lambda>x. fst k = fst x) xs"
    by simp
qed

text \<open>
  C9. The hash of a block is a function of the block (a repeated call gives the same
  digest), and two blocks that are the same dictionary, the fields inserted in a
  different order, have the same hash.
\<close>

theorem hash_canonical:
  assumes "distinct (map fst b1)" and "distinct (map fst b2)" and "map_of b1 = map_of b2"
  shows "hash L b1 = hash L b2"
  using sort_key_fst_unique [OF assms] by (simp add: hash_def)

theorem hash_canonical_witness:
  "distinct (map fst example_block) \<and> distinct (map fst example_block_reordered)
   \<and> map_of example_block = map_of example_block_reordered
   \<and> example_block \<noteq> example_block_reordered
   \<and> hash demo_lib example_block = hash demo_lib example_block_reordered"
proof -
  have a: "distinct (map fst example_block)"
    by (simp add: example_block_def)
  have b: "distinct (map fst example_block_reordered)"
    by (simp add: example_block_reordered_def)
  have "set example_block = set example_block_reordered"
    by (auto simp: example_block_def example_block_reordered_def)
  with a b have c: "map_of example_block = map_of example_block_reordered"
    by (simp add: map_of_inject_set)
  have d: "example_block \<noteq> example_block_reordered"
    by (simp add: example_block_def example_block_reordered_def)
  show ?thesis
    using a b c d hash_canonical [OF a b c, of demo_lib] by simp
qed

section \<open>The proof search\<close>

lemma pow_loop_finds:
  assumes "valid_proof L lp (PyInt p) lh (Some t)"
  shows "n = nat (p - k) \<Longrightarrow> k \<le> p \<Longrightarrow>
         \<exists>q. pow_loop L lp lh t k = Some q \<and> k \<le> q \<and> q \<le> p
            \<and> valid_proof L lp (PyInt q) lh (Some t)
            \<and> (\<forall>r. k \<le> r \<and> r < q \<longrightarrow> \<not> valid_proof L lp (PyInt r) lh (Some t))"
proof (induction n arbitrary: k)
  case 0
  then have "k = p" by simp
  with assms have "pow_loop L lp lh t k = Some k"
    by (subst pow_loop.simps) simp
  with assms \<open>k = p\<close> show ?case by auto
next
  case (Suc n)
  show ?case
  proof (cases "valid_proof L lp (PyInt k) lh (Some t)")
    case True
    then have "pow_loop L lp lh t k = Some k"
      by (subst pow_loop.simps) simp
    with True Suc.prems show ?thesis by auto
  next
    case False
    from Suc.prems have "n = nat (p - (k + 1))" and "k + 1 \<le> p" by auto
    from Suc.IH [OF this] obtain q where
      q: "pow_loop L lp lh t (k + 1) = Some q" "k + 1 \<le> q" "q \<le> p"
         "valid_proof L lp (PyInt q) lh (Some t)"
         "\<forall>r. k + 1 \<le> r \<and> r < q \<longrightarrow> \<not> valid_proof L lp (PyInt r) lh (Some t)"
      by blast
    from False q(1) have "pow_loop L lp lh t k = Some q"
      by (subst pow_loop.simps) simp
    moreover have "\<forall>r. k \<le> r \<and> r < q \<longrightarrow> \<not> valid_proof L lp (PyInt r) lh (Some t)"
    proof (intro allI impI)
      fix r assume "k \<le> r \<and> r < q"
      then have "r = k \<or> (k + 1 \<le> r \<and> r < q)" by auto
      with False q(5) show "\<not> valid_proof L lp (PyInt r) lh (Some t)" by blast
    qed
    ultimately show ?thesis using q(2,3,4) by auto
  qed
qed

text \<open>
  C5. Whenever some non-negative proof satisfies \<open>valid_proof\<close> at difficulty \<open>d\<close> (a
  target of \<open>d\<close> zeros), the search from 0 returns; what it returns satisfies
  \<open>valid_proof\<close> and no smaller non-negative integer does. At \<open>d = DIFFICULTY\<close>, the
  difficulty of the program, this search is \<open>proof_of_work\<close>: it returns that least
  proof, which \<open>valid_proof\<close> accepts with its default target.
\<close>

theorem proof_of_work_least:
  assumes "0 \<le> p"
    and "valid_proof L last_proof (PyInt p) (PyStr last_hash) (Some (replicate d CHR ''0''))"
  shows "\<exists>q. pow_loop L last_proof (PyStr last_hash) (replicate d CHR ''0'') 0 = Some q
           \<and> (d = DIFFICULTY \<longrightarrow>
                 proof_of_work L last_proof last_hash = Some q
                 \<and> valid_proof L last_proof (PyInt q) (PyStr last_hash) None)
           \<and> 0 \<le> q
           \<and> valid_proof L last_proof (PyInt q) (PyStr last_hash) (Some (replicate d CHR ''0''))
           \<and> (\<forall>r. 0 \<le> r \<and> r < q \<longrightarrow>
                 \<not> valid_proof L last_proof (PyInt r) (PyStr last_hash)
                      (Some (replicate d CHR ''0'')))"
proof -
  from pow_loop_finds [OF assms(2) refl assms(1)] obtain q where
    q: "pow_loop L last_proof (PyStr last_hash) (replicate d CHR ''0'') 0 = Some q"
       "0 \<le> q"
       "valid_proof L last_proof (PyInt q) (PyStr last_hash) (Some (replicate d CHR ''0''))"
       "\<forall>r. 0 \<le> r \<and> r < q \<longrightarrow>
          \<not> valid_proof L last_proof (PyInt r) (PyStr last_hash) (Some (replicate d CHR ''0''))"
    by blast
  have "proof_of_work L last_proof last_hash = Some q
        \<and> valid_proof L last_proof (PyInt q) (PyStr last_hash) None" if "d = DIFFICULTY"
    using q(1,3) that by (simp add: proof_of_work_def valid_proof_def)
  with q show ?thesis by blast
qed

theorem proof_of_work_least_witness:
  "(0::int) \<le> 3
   \<and> valid_proof demo_lib (PyInt 100) (PyInt 3) (PyStr ''1'') (Some (replicate DIFFICULTY CHR ''0''))
   \<and> \<not> valid_proof demo_lib (PyInt 100) (PyInt 0) (PyStr ''1'') None
   \<and> proof_of_work demo_lib (PyInt 100) ''1'' = Some 3"
proof -
  have a: "(0::int) \<le> 3" by simp
  have b: "valid_proof demo_lib (PyInt 100) (PyInt 3) (PyStr ''1'')
             (Some (replicate DIFFICULTY CHR ''0''))"
    by code_simp
  have n0: "\<not> valid_proof demo_lib (PyInt 100) (PyInt 0) (PyStr ''1'')
             (Some (replicate DIFFICULTY CHR ''0''))"
    by code_simp
  have n1: "\<not> valid_proof demo_lib (PyInt 100) (PyInt 1) (PyStr ''1'')
             (Some (replicate DIFFICULTY CHR ''0''))"
    by code_simp
  have n2: "\<not> valid_proof demo_lib (PyInt 100) (PyInt 2) (PyStr ''1'')
             (Some (replicate DIFFICULTY CHR ''0''))"
    by code_simp
  from proof_of_work_least [OF a b] obtain q where
    q: "proof_of_work demo_lib (PyInt 100) ''1'' = Some q" "0 \<le> q"
       "valid_proof demo_lib (PyInt 100) (PyInt q) (PyStr ''1'')
          (Some (replicate DIFFICULTY CHR ''0''))"
       "\<forall>r. 0 \<le> r \<and> r < q \<longrightarrow>
          \<not> valid_proof demo_lib (PyInt 100) (PyInt r) (PyStr ''1'')
               (Some (replicate DIFFICULTY CHR ''0''))"
    by blast
  have "q \<le> 3"
  proof (rule ccontr)
    assume "\<not> q \<le> 3"
    then have "(0::int) \<le> 3 \<and> 3 < q" by simp
    with q(4) b show False by blast
  qed
  with q(2) have "q = 0 \<or> q = 1 \<or> q = 2 \<or> q = 3" by auto
  with q(3) n0 n1 n2 have "q = 3" by auto
  moreover from n0 have "\<not> valid_proof demo_lib (PyInt 100) (PyInt 0) (PyStr ''1'') None"
    by (simp add: valid_proof_def)
  ultimately show ?thesis using a b q(1) by simp
qed

lemma pow_loop_example:
  "pow_loop demo_lib (PyInt 100) (PyStr ''1'') (replicate 4 CHR ''0'') 0 = Some 3"
  apply (subst pow_loop.simps)
  apply (subst pow_loop.simps)
  apply (subst pow_loop.simps)
  apply (subst pow_loop.simps)
  apply (simp add: valid_proof_def py_str_def int_repr_def digits10.simps digit_char_def demo_lib_def demo_sha256_def)
  done

section \<open>What valid_chain checks\<close>






section \<open>The scan of the neighbours\<close>


















section \<open>The store of transaction lists\<close>


lemma blocks_stable:
  assumes "list_all (\<lambda>b. list_all (\<lambda>a. h a = h' a) (refs b)) bs"
  shows "map (block_of h) bs = map (block_of h') bs"
  using assms by (induction bs) (auto intro: block_of_cong)

lemma store_ok_refs:
  assumes "store_ok st"
  shows "list_all (\<lambda>b. list_all (\<lambda>a. a < fresh st \<and> a \<noteq> current_transactions st) (refs b)) (chain st)"
    and "current_transactions st < fresh st"
  using assms by (simp_all add: store_ok_def)

lemma list_all_refs_mono:
  assumes "list_all (\<lambda>b. list_all P (refs b)) bs" and "\<And>a. P a \<Longrightarrow> Q a"
  shows "list_all (\<lambda>b. list_all Q (refs b)) bs"
  using assms by (auto simp: list_all_iff)







lemma new_block_result:
  assumes "new_block L proof previous_hash ts st = Inr (b, st')"
  shows "\<exists>ph. supplied_or_hash L previous_hash st = Inr ph
          \<and> b = [(''index'', Val (PyInt (int (length (chain st)) + 1))),
                  (''timestamp'', Val (PyFloat ts)),
                  (''transactions'', TxList (current_transactions st)),
                  (''proof'', Val (PyInt proof)),
                  (''previous_hash'', Val (PyStr ph))]
          \<and> st' = st\<lparr>chain := chain st @ [b],
                       current_transactions := fresh st,
                       heap := (heap st)(fresh st := []),
                       fresh := Suc (fresh st)\<rparr>"
  using assms by (auto simp: new_block_def Let_def split: sum.splits)

lemma new_block_effect:
  assumes ok: "store_ok st"
    and nb: "new_block L proof previous_hash ts st = Inr (b, st')"
  shows "store_ok st'"
    and "pool st' = []"
    and "chain st' = chain st @ [b]"
    and "blocks st' = blocks st @ [block_of (heap st') b]"
    and "\<exists>ph. supplied_or_hash L previous_hash st = Inr ph \<and>
           block_of (heap st') b =
             [(''index'', PyInt (int (length (chain st)) + 1)),
              (''timestamp'', PyFloat ts),
              (''transactions'', PyList (pool st)),
              (''proof'', PyInt proof),
              (''previous_hash'', PyStr ph)]"
proof -
  from new_block_result [OF nb] obtain ph where
    ph: "supplied_or_hash L previous_hash st = Inr ph"
    and b: "b = [(''index'', Val (PyInt (int (length (chain st)) + 1))),
                  (''timestamp'', Val (PyFloat ts)),
                  (''transactions'', TxList (current_transactions st)),
                  (''proof'', Val (PyInt proof)),
                  (''previous_hash'', Val (PyStr ph))]"
    and st': "st' = st\<lparr>chain := chain st @ [b],
                       current_transactions := fresh st,
                       heap := (heap st)(fresh st := []),
                       fresh := Suc (fresh st)\<rparr>"
    by blast
  note r = store_ok_refs [OF ok]
  have rb: "refs b = [current_transactions st]"
    by (simp add: b refs_def)
  have old: "list_all (\<lambda>b. list_all (\<lambda>a. a < Suc (fresh st) \<and> a \<noteq> fresh st) (refs b)) (chain st)"
    using r(1) by (rule list_all_refs_mono) simp
  show "store_ok st'"
    using old r(2) by (simp add: st' store_ok_def rb)
  show "pool st' = []"
    by (simp add: st' pool_def)
  show "chain st' = chain st @ [b]"
    by (simp add: st')
  have same: "list_all (\<lambda>b. list_all (\<lambda>a. ((heap st)(fresh st := [])) a = heap st a) (refs b)) (chain st)"
    using r(1) by (rule list_all_refs_mono) simp
  have "map (block_of ((heap st)(fresh st := []))) (chain st) = map (block_of (heap st)) (chain st)"
    using same by (rule blocks_stable)
  then show "blocks st' = blocks st @ [block_of (heap st') b]"
    by (simp add: blocks_def st' del: fun_upd_apply)
  have "block_of (heap st') b =
             [(''index'', PyInt (int (length (chain st)) + 1)),
              (''timestamp'', PyFloat ts),
              (''transactions'', PyList (pool st)),
              (''proof'', PyInt proof),
              (''previous_hash'', PyStr ph)]"
    using r(2) by (simp add: st' b block_of_def pool_def)
  with ph show "\<exists>ph. supplied_or_hash L previous_hash st = Inr ph \<and>
           block_of (heap st') b =
             [(''index'', PyInt (int (length (chain st)) + 1)),
              (''timestamp'', PyFloat ts),
              (''transactions'', PyList (pool st)),
              (''proof'', PyInt proof),
              (''previous_hash'', PyStr ph)]"
    by blast
qed



lemma store_ok_init: "init L ts = Inr st \<Longrightarrow> store_ok st"
  using init_eq [of L ts] by (auto simp: store_ok_def refs_def)

lemma run_Nil: "run L st [] = st"
  by (simp add: run_def)

lemma run_Cons: "run L st (op # ops) = run L (apply_op L st op) ops"
  by (simp add: run_def)








section \<open>The pool and the recorded transactions\<close>












section \<open>The links of a mined chain\<close>

lemma linked_snoc:
  "linked L bs \<Longrightarrow> bs \<noteq> [] \<Longrightarrow> map_of b ''previous_hash'' = Some (PyStr (hash L (last bs)))
   \<Longrightarrow> linked L (bs @ [b])"
proof (induction L bs rule: linked.induct)
  case (1 L)
  then show ?case by simp
next
  case (2 L a)
  then show ?case by simp
next
  case (3 L a c bs)
  then show ?case by simp
qed

lemma supplied_or_hash_honest:
  assumes "chain st \<noteq> []"
    and "previous_hash = None \<or> previous_hash = Some []
         \<or> previous_hash = Some (hash L (last (blocks st)))"
  shows "supplied_or_hash L previous_hash st = Inr (hash L (last (blocks st)))"
proof -
  have "last (blocks st) = block_of (heap st) (last (chain st))"
    using assms(1) by (simp add: blocks_def last_map)
  with assms show ?thesis
    by (auto simp: supplied_or_hash_def)
qed

lemma honest_mines_linked:
  "store_ok st \<Longrightarrow> chain st \<noteq> [] \<Longrightarrow> linked L (blocks st) \<Longrightarrow> honest_mines L st ops \<Longrightarrow>
   linked L (blocks (run L st ops))
   \<and> length (blocks (run L st ops)) = length (blocks st) + length ops"
proof (induction ops arbitrary: st)
  case Nil
  then show ?case by (simp add: run_Nil)
next
  case (Cons op ops)
  from Cons.prems(4) obtain p ph ts where op: "op = Mine p ph ts"
    by (cases op) simp_all
  with Cons.prems(4) have
    h: "ph = None \<or> ph = Some [] \<or> ph = Some (hash L (last (blocks st)))"
    and rest: "honest_mines L (apply_op L st (Mine p ph ts)) ops"
    by simp_all
  from supplied_or_hash_honest [OF Cons.prems(2) h]
  have s: "supplied_or_hash L ph st = Inr (hash L (last (blocks st)))" .
  from new_block_Inr [OF s] obtain b st' where
    nb: "new_block L p ph ts st = Inr (b, st')" by blast
  note e = new_block_effect [OF Cons.prems(1) nb]
  from e(5) s have "map_of (block_of (heap st') b) ''previous_hash''
                      = Some (PyStr (hash L (last (blocks st))))"
    by auto
  moreover have "blocks st \<noteq> []"
    using Cons.prems(2) by (simp add: blocks_def)
  ultimately have l: "linked L (blocks st')"
    using Cons.prems(3) e(4) by (simp add: linked_snoc)
  have a: "apply_op L st (Mine p ph ts) = st'"
    using nb by simp
  have "chain st' \<noteq> []" using e(3) by simp
  from Cons.IH [OF e(1) this l] rest a
  have "linked L (blocks (run L st' ops))
        \<and> length (blocks (run L st' ops)) = length (blocks st') + length ops"
    by simp
  with e(4) a op show ?case
    by (simp add: run_Cons)
qed

lemma demo_digest_not_abc: "replicate 64 CHR ''a'' \<noteq> ''abc''"
  by code_simp

text \<open>
  C3, as stated, fails. \<open>new_block\<close> stores the \<open>previous_hash\<close> it is given: mined with
  the argument "abc" on a fresh ledger, block 2 carries "abc", which is not the hash of
  the genesis block (a digest has 64 characters).
\<close>

theorem supplied_hash_breaks_link:
  "init demo_lib ''1.5'' = Inr example_genesis
   \<and> list_all is_mine [Mine 5 (Some ''abc'') ''2.5'']
   \<and> blocks (run demo_lib example_genesis [Mine 5 (Some ''abc'') ''2.5''])
       = [example_genesis_block,
          [(''index'', PyInt 2), (''timestamp'', PyFloat ''2.5''),
           (''transactions'', PyList []), (''proof'', PyInt 5),
           (''previous_hash'', PyStr ''abc'')]]
   \<and> hash demo_lib example_genesis_block = replicate 64 CHR ''a''
   \<and> \<not> linked demo_lib (blocks (run demo_lib example_genesis [Mine 5 (Some ''abc'') ''2.5'']))"
proof -
  have b: "blocks (run demo_lib example_genesis [Mine 5 (Some ''abc'') ''2.5''])
       = [example_genesis_block,
          [(''index'', PyInt 2), (''timestamp'', PyFloat ''2.5''),
           (''transactions'', PyList []), (''proof'', PyInt 5),
           (''previous_hash'', PyStr ''abc'')]]"
    by (simp add: run_def new_block_def supplied_or_hash_def example_genesis_def Let_def
        blocks_def block_of_def example_genesis_block_def)
  have "\<not> linked demo_lib [example_genesis_block,
          [(''index'', PyInt 2), (''timestamp'', PyFloat ''2.5''),
           (''transactions'', PyList []), (''proof'', PyInt 5),
           (''previous_hash'', PyStr ''abc'')]]"
    using demo_digest_not_abc by (simp add: genesis_hash) 
  with b show ?thesis
    by (simp add: init_example genesis_hash)
qed

text \<open>
  C3, amended. For a chain produced solely by \<open>new_block\<close> calls on a freshly constructed
  ledger, where each \<open>previous_hash\<close> argument is left out, is empty, or is the hash of
  the block that is last at the call (any proofs, any timestamps), every block after
  the genesis block carries the hash of the block before it; each call has appended
  one block.
\<close>

theorem mined_chain_linked:
  assumes "init L ts = Inr st0" and "honest_mines L st0 ops"
  shows "linked L (blocks (run L st0 ops))
       \<and> length (blocks (run L st0 ops)) = Suc (length ops)"
proof -
  from assms(1) have ok: "store_ok st0" by (rule store_ok_init)
  from assms(1) init_eq [of L ts] have c: "chain st0 \<noteq> []" and n: "length (blocks st0) = 1"
    by (auto simp: blocks_def)
  then have l: "linked L (blocks st0)"
    by (cases "blocks st0") simp_all
  from honest_mines_linked [OF ok c l assms(2)] n show ?thesis by simp
qed

theorem mined_chain_linked_witness:
  "init demo_lib ''1.5'' = Inr example_genesis
   \<and> honest_mines demo_lib example_genesis
        [Mine 3 (Some (replicate 64 CHR ''a'')) ''2.5'', Mine 0 None ''4.5'', Mine 7 (Some []) ''5.5'']
   \<and> linked demo_lib (blocks (run demo_lib example_genesis
        [Mine 3 (Some (replicate 64 CHR ''a'')) ''2.5'', Mine 0 None ''4.5'', Mine 7 (Some []) ''5.5'']))
   \<and> length (blocks (run demo_lib example_genesis
        [Mine 3 (Some (replicate 64 CHR ''a'')) ''2.5'', Mine 0 None ''4.5'', Mine 7 (Some []) ''5.5'']))
      = 4"
proof -
  have a: "init demo_lib ''1.5'' = Inr example_genesis" by (rule init_example)
  have "hash demo_lib (last (blocks example_genesis)) = replicate 64 CHR ''a''"
    by (simp add: example_genesis_blocks genesis_hash)
  then have b: "honest_mines demo_lib example_genesis
        [Mine 3 (Some (replicate 64 CHR ''a'')) ''2.5'', Mine 0 None ''4.5'', Mine 7 (Some []) ''5.5'']"
    by simp
  show ?thesis
    using a b mined_chain_linked [OF a b] by simp
qed

section \<open>The pool and the mined block\<close>




end
